theory Spec2Isabelle
  imports Complex_Main "HOL-Library.Char_ord" "HOL-Library.List_Lexorder"
begin

section \<open>Experiment 6: the hand-written PageRank solver\<close>

text \<open>
  The development embeds \<^verbatim>\<open>manual_pagerank\<close> of
  \<^verbatim>\<open>src/Experiment_6/experiment_6.py\<close>. The numpy arrays of the source hold
  IEEE doubles; here every number is a \<^typ>\<open>real\<close>, so all arithmetic is exact and
  rounding is not part of the model.
\<close>

subsection \<open>Errors\<close>

text \<open>
  The two exceptions the body of \<^verbatim>\<open>manual_pagerank\<close> can raise: the scalar
  division \<^verbatim>\<open>(1 - d) / N\<close> with \<^verbatim>\<open>N = 0\<close>, and a failed lookup
  \<^verbatim>\<open>node_idx[v]\<close>.
\<close>

datatype error = ZeroDivisionError | KeyError

subsection \<open>The directed graph\<close>

text \<open>
  A \<^verbatim>\<open>networkx.DiGraph\<close> keeps a dictionary from each node to the dictionary of
  its successors, both in insertion order. It is an association list here: the keys are
  the nodes, the value of a node lists its out-neighbours.
\<close>

type_synonym 'a digraph = "('a \<times> 'a list) list"

definition nodes :: "'a digraph \<Rightarrow> 'a list" where
  "nodes g = map fst g"

text \<open>
  \<^verbatim>\<open>graph.neighbors(u)\<close>. The library raises for a \<^verbatim>\<open>u\<close> that is not a
  node; the solver only asks for nodes of the graph itself, where the lookup succeeds.
\<close>

definition neighbors :: "'a digraph \<Rightarrow> 'a \<Rightarrow> 'a list" where
  "neighbors g u = (case map_of g u of None \<Rightarrow> [] | Some vs \<Rightarrow> vs)"

text \<open>
  The invariant every \<^verbatim>\<open>DiGraph\<close> satisfies: a node appears once, the
  out-neighbours of a node are nodes, and an edge is stored once.
\<close>

definition wf_digraph :: "'a digraph \<Rightarrow> bool" where
  "wf_digraph g \<longleftrightarrow>
     distinct (map fst g) \<and>
     (\<forall>(u, vs) \<in> set g. distinct vs \<and> set vs \<subseteq> fst ` set g)"

definition add_node :: "'a digraph \<Rightarrow> 'a \<Rightarrow> 'a digraph" where
  "add_node g n = (if n \<in> fst ` set g then g else g @ [(n, [])])"

definition add_edge :: "'a digraph \<Rightarrow> 'a \<times> 'a \<Rightarrow> 'a digraph" where
  "add_edge g e =
     (case e of (u, v) \<Rightarrow>
        map (\<lambda>(n, vs). if n = u \<and> v \<notin> set vs then (n, vs @ [v]) else (n, vs))
            (add_node (add_node g u) v))"

definition add_nodes_from :: "'a digraph \<Rightarrow> 'a list \<Rightarrow> 'a digraph" where
  "add_nodes_from g ns = foldl add_node g ns"

definition add_edges_from :: "'a digraph \<Rightarrow> ('a \<times> 'a) list \<Rightarrow> 'a digraph" where
  "add_edges_from g es = foldl add_edge g es"

text \<open>The example network of the experiment (lines 24 to 26 of the source).\<close>

definition G :: "string digraph" where
  "G = add_edges_from (add_nodes_from [] [''A'', ''B'', ''C''])
         [(''A'', ''B''), (''A'', ''C''), (''C'', ''A'')]"

subsection \<open>Vectors and matrices\<close>

text \<open>A matrix is the list of its rows, as a two-dimensional numpy array is.\<close>

type_synonym vec = "real list"
type_synonym matrix = "real list list"

definition zeros :: "nat \<Rightarrow> matrix" where
  "zeros N = replicate N (replicate N 0)"

text \<open>\<^verbatim>\<open>M[i, j] = x\<close>\<close>

definition set_cell :: "matrix \<Rightarrow> nat \<Rightarrow> nat \<Rightarrow> real \<Rightarrow> matrix" where
  "set_cell M i j x = M[i := (M ! i)[j := x]]"

text \<open>\<^verbatim>\<open>d * M\<close>, \<^verbatim>\<open>M @ v\<close>, \<^verbatim>\<open>a - b\<close> and \<^verbatim>\<open>np.linalg.norm(w, 1)\<close>\<close>

definition scale :: "real \<Rightarrow> matrix \<Rightarrow> matrix" where
  "scale d M = map (map ((*) d)) M"

definition dot :: "vec \<Rightarrow> vec \<Rightarrow> real" where
  "dot a b = sum_list (map2 (*) a b)"

definition matvec :: "matrix \<Rightarrow> vec \<Rightarrow> vec" where
  "matvec M v = map (\<lambda>row. dot row v) M"

definition vsub :: "vec \<Rightarrow> vec \<Rightarrow> vec" where
  "vsub a b = map2 (-) a b"

definition norm1 :: "vec \<Rightarrow> real" where
  "norm1 w = sum_list (map abs w)"

subsection \<open>The index of a node\<close>

text \<open>
  \<^verbatim>\<open>node_idx = {node: i for i, node in enumerate(nodes)}\<close>: the dictionary is
  filled from left to right, a later entry replacing an earlier one with the same key.
\<close>

definition node_idx :: "'a list \<Rightarrow> 'a \<rightharpoonup> nat" where
  "node_idx ns = foldl (\<lambda>m (i, n). m(n \<mapsto> i)) Map.empty (zip [0..<length ns] ns)"

subsection \<open>The transition matrix\<close>

text \<open>
  The inner loops of lines 61 to 62 and 64 to 65: for every \<^verbatim>\<open>v\<close> of the list,
  \<^verbatim>\<open>M[node_idx[v], node_idx[u]] = x\<close>.
\<close>

fun fill_column :: "('a \<rightharpoonup> nat) \<Rightarrow> 'a \<Rightarrow> real \<Rightarrow> 'a list \<Rightarrow> matrix \<Rightarrow> error + matrix" where
  "fill_column idx u x [] M = Inr M"
| "fill_column idx u x (v # vs) M =
     (case idx v of
        None \<Rightarrow> Inl KeyError
      | Some i \<Rightarrow>
          (case idx u of
             None \<Rightarrow> Inl KeyError
           | Some j \<Rightarrow> fill_column idx u x vs (set_cell M i j x)))"

text \<open>The outer loop of lines 57 to 65, over the nodes still to visit.\<close>

fun build_matrix ::
  "'a digraph \<Rightarrow> 'a list \<Rightarrow> ('a \<rightharpoonup> nat) \<Rightarrow> 'a list \<Rightarrow> matrix \<Rightarrow> error + matrix" where
  "build_matrix graph ns idx [] M = Inr M"
| "build_matrix graph ns idx (u # us) M =
     (let nbrs = neighbors graph u in
      case (if length nbrs = 0
            then fill_column idx u (1 / real (length ns)) ns M
            else fill_column idx u (1 / real (length nbrs)) nbrs M) of
        Inl e \<Rightarrow> Inl e
      | Inr M' \<Rightarrow> build_matrix graph ns idx us M')"

text \<open>
  Lines 54 to 65 as a whole: the zero matrix, the index dictionary and the loop over all
  nodes in their sorted order.
\<close>

definition transition_matrix :: "'a::linorder digraph \<Rightarrow> error + matrix" where
  "transition_matrix graph =
     (let ns = sort (nodes graph) in
      build_matrix graph ns (node_idx ns) ns (zeros (length ns)))"

subsection \<open>Power iteration\<close>

text \<open>The text of \<^verbatim>\<open>print(f"Converged at iteration {i}")\<close>.\<close>

function str_nat :: "nat \<Rightarrow> string" where
  "str_nat n =
     (if n < 10 then [''0123456789'' ! n]
      else str_nat (n div 10) @ [''0123456789'' ! (n mod 10)])"
  by pat_completeness auto
termination
  by (relation "measure id") auto

definition converged_line :: "nat \<Rightarrow> string" where
  "converged_line i = ''Converged at iteration '' @ str_nat i"

text \<open>\<^verbatim>\<open>v_next = (1 - d) / N + d * M @ v\<close>, which Python reads as
  \<^verbatim>\<open>(1 - d) / N + ((d * M) @ v)\<close>; the scalar is added to every entry.\<close>

definition update :: "nat \<Rightarrow> real \<Rightarrow> matrix \<Rightarrow> vec \<Rightarrow> vec" where
  "update N d M v = map (\<lambda>x. (1 - d) / real N + x) (matvec (scale d M) v)"

text \<open>
  The loop of lines 74 to 79 over the values of \<^verbatim>\<open>range(iterations)\<close> still to
  come. It yields the lines printed and either the error raised or the value of
  \<^verbatim>\<open>v\<close> when the loop is left. The division \<^verbatim>\<open>(1 - d) / N\<close> is between
  Python scalars and raises for \<^verbatim>\<open>N = 0\<close>.
\<close>

fun power_iteration ::
  "nat \<Rightarrow> real \<Rightarrow> matrix \<Rightarrow> real \<Rightarrow> nat list \<Rightarrow> vec \<Rightarrow> string list \<times> (error + vec)" where
  "power_iteration N d M tol [] v = ([], Inr v)"
| "power_iteration N d M tol (i # is) v =
     (if N = 0 then ([], Inl ZeroDivisionError)
      else
        (let v_next = update N d M v in
         if norm1 (vsub v_next v) < tol then ([converged_line i], Inr v)
         else power_iteration N d M tol is v_next))"

subsection \<open>The solver\<close>

text \<open>
  \<^verbatim>\<open>manual_pagerank(graph, d, iterations, tol)\<close>. The result is the text printed
  and either the exception or the dictionary returned, given as the list of its items in
  insertion order. The dictionary \<^verbatim>\<open>pr\<close> of line 40 is never read, and its
  comprehension divides by \<^verbatim>\<open>N\<close> once per node only, so it is left out.
  \<^verbatim>\<open>np.ones(N) / N\<close> is an array division and gives the empty array for
  \<^verbatim>\<open>N = 0\<close>.
\<close>

definition manual_pagerank ::
  "'a::linorder digraph \<Rightarrow> real \<Rightarrow> int \<Rightarrow> real \<Rightarrow> string list \<times> (error + ('a \<times> real) list)" where
  "manual_pagerank graph d iterations tol =
     (let ns = sort (nodes graph);
          N = length ns
      in case transition_matrix graph of
           Inl e \<Rightarrow> ([], Inl e)
         | Inr M \<Rightarrow>
             (case power_iteration N d M tol [0..<nat iterations] (replicate N (1 / real N)) of
                (out, Inl e) \<Rightarrow> (out, Inl e)
              | (out, Inr v) \<Rightarrow> (out, Inr (map (\<lambda>i. (ns ! i, v ! i)) [0..<N]))))"

text \<open>
  The same network with its nodes and edges added in another order; it is used to compare
  two runs.
\<close>

definition G_reordered :: "string digraph" where
  "G_reordered = add_edges_from (add_nodes_from [] [''C'', ''B'', ''A''])
         [(''C'', ''A''), (''A'', ''C''), (''A'', ''B'')]"

subsection \<open>Shapes and stochastic matrices\<close>

text \<open>
  Two predicates for stating the properties below: a square matrix of size \<open>n\<close>, and a
  non-negative square matrix each of whose columns sums to one.
\<close>

definition dims :: "nat \<Rightarrow> matrix \<Rightarrow> bool" where
  "dims n M \<longleftrightarrow> length M = n \<and> (\<forall>r \<in> set M. length r = n)"

definition stochastic :: "nat \<Rightarrow> matrix \<Rightarrow> bool" where
  "stochastic N M \<longleftrightarrow>
     dims N M \<and> (\<forall>k < N. (\<Sum>i < N. M ! i ! k) = 1) \<and> (\<forall>i < N. \<forall>k < N. 0 \<le> M ! i ! k)"

section \<open>The graph class keeps its invariant\<close>

text \<open>
  Every graph built from the empty one by adding nodes and edges satisfies
  \<open>wf_digraph\<close>, so the invariant excludes no graph the solver can be given.
\<close>

lemma wf_empty: "wf_digraph []"
  by (simp add: wf_digraph_def)

lemma fst_add_node: "fst ` set (add_node g n) = insert n (fst ` set g)"
  by (auto simp: add_node_def)

lemma wf_add_node:
  assumes "wf_digraph g"
  shows "wf_digraph (add_node g n)"
proof (cases "n \<in> fst ` set g")
  case True
  with assms show ?thesis by (simp add: add_node_def)
next
  case False
  with assms show ?thesis
    by (auto simp: add_node_def wf_digraph_def)
qed

lemma wf_add_edge:
  assumes "wf_digraph g"
  shows "wf_digraph (add_edge g e)"
proof -
  obtain u v where e: "e = (u, v)" by (cases e)
  define h where "h = add_node (add_node g u) v"
  define f where "f = (\<lambda>(n, vs). if n = u \<and> v \<notin> set vs then (n, vs @ [v]) else (n :: 'a, vs))"
  have wf: "wf_digraph h" unfolding h_def using assms by (intro wf_add_node)
  have v: "v \<in> fst ` set h" unfolding h_def by (simp add: fst_add_node)
  have fst_f: "fst (f p) = fst p" for p by (cases p) (simp add: f_def)
  then have keys: "map fst (map f h) = map fst h" by simp
  then have img: "fst ` set (map f h) = fst ` set h" by (metis set_map)
  have nbrs: "distinct ws \<and> set ws \<subseteq> fst ` set h" if "(n, ws) \<in> set (map f h)" for n ws
  proof -
    from that obtain m vs where p: "(m, vs) \<in> set h" "(n, ws) = f (m, vs)" by auto
    with wf have "distinct vs \<and> set vs \<subseteq> fst ` set h" by (auto simp: wf_digraph_def)
    with p(2) v show ?thesis by (auto simp: f_def split: if_splits)
  qed
  have "distinct (map fst (map f h))"
    using wf unfolding keys by (simp add: wf_digraph_def)
  moreover have "\<forall>(n, ws) \<in> set (map f h). distinct ws \<and> set ws \<subseteq> fst ` set (map f h)"
    using nbrs unfolding img by blast
  ultimately have "wf_digraph (map f h)"
    unfolding wf_digraph_def by blast
  then show ?thesis by (simp add: e add_edge_def h_def f_def)
qed

lemma wf_add_nodes_from: "wf_digraph g \<Longrightarrow> wf_digraph (add_nodes_from g ns)"
  unfolding add_nodes_from_def by (induction ns arbitrary: g) (simp_all add: wf_add_node)

lemma wf_add_edges_from: "wf_digraph g \<Longrightarrow> wf_digraph (add_edges_from g es)"
  unfolding add_edges_from_def by (induction es arbitrary: g) (simp_all add: wf_add_edge)

section \<open>The transition matrix\<close>

lemma dims_nth: "dims n M \<Longrightarrow> i < n \<Longrightarrow> length (M ! i) = n"
  by (auto simp: dims_def)

lemma dims_zeros: "dims n (zeros n)"
  by (simp add: dims_def zeros_def)

lemma zeros_nth: "i < n \<Longrightarrow> k < n \<Longrightarrow> zeros n ! i ! k = 0"
  by (simp add: zeros_def)

lemma dims_set_cell: "dims n M \<Longrightarrow> i < n \<Longrightarrow> dims n (set_cell M i j x)"
  by (auto simp: dims_def set_cell_def dest!: set_update_subset_insert [THEN subsetD])

lemma set_cell_nth:
  "dims n M \<Longrightarrow> i < n \<Longrightarrow> j < n \<Longrightarrow> a < n \<Longrightarrow> b < n \<Longrightarrow>
   set_cell M i j x ! a ! b = (if a = i \<and> b = j then x else M ! a ! b)"
  by (auto simp: dims_def set_cell_def nth_list_update)

lemma node_idx_snoc:
  "node_idx (ns @ [n]) = (node_idx ns)(n \<mapsto> length ns)"
  by (simp add: node_idx_def)

lemma node_idx_nth:
  "distinct ns \<Longrightarrow> i < length ns \<Longrightarrow> node_idx ns (ns ! i) = Some i"
proof (induction ns arbitrary: i rule: rev_induct)
  case Nil
  then show ?case by simp
next
  case (snoc n ns)
  show ?case
  proof (cases "i = length ns")
    case True
    then show ?thesis by (simp add: node_idx_snoc)
  next
    case False
    with snoc.prems have lt: "i < length ns" by simp
    with snoc.prems have "ns ! i \<noteq> n" by auto
    with snoc lt show ?thesis by (simp add: node_idx_snoc nth_append)
  qed
qed

lemma fill_column_result:
  assumes "distinct ns" and "dims (length ns) M" and "j < length ns"
    and "set vs \<subseteq> set ns"
  shows "\<exists>M'. fill_column (node_idx ns) (ns ! j) x vs M = Inr M' \<and> dims (length ns) M' \<and>
           (\<forall>i < length ns. \<forall>k < length ns.
              M' ! i ! k = (if k = j \<and> ns ! i \<in> set vs then x else M ! i ! k))"
  using assms(2,4)
proof (induction vs arbitrary: M)
  case Nil
  then show ?case by simp
next
  case (Cons v vs)
  from Cons.prems obtain a where a: "a < length ns" "v = ns ! a"
    by (auto simp: in_set_conv_nth)
  have ia: "node_idx ns v = Some a" and ij: "node_idx ns (ns ! j) = Some j"
    using a assms(1,3) by (simp_all add: node_idx_nth)
  let ?M1 = "set_cell M a j x"
  have d1: "dims (length ns) ?M1" using Cons.prems(1) a(1) by (rule dims_set_cell)
  from Cons.prems have "set vs \<subseteq> set ns" by simp
  from Cons.IH [OF d1 this] obtain M' where
    M': "fill_column (node_idx ns) (ns ! j) x vs ?M1 = Inr M'" "dims (length ns) M'"
      "\<forall>i < length ns. \<forall>k < length ns.
              M' ! i ! k = (if k = j \<and> ns ! i \<in> set vs then x else ?M1 ! i ! k)"
    by blast
  have eq: "ns ! i = ns ! a \<longleftrightarrow> i = a" if "i < length ns" for i
    using that a(1) assms(1) by (simp add: nth_eq_iff_index_eq)
  have "\<forall>i < length ns. \<forall>k < length ns.
          M' ! i ! k = (if k = j \<and> ns ! i \<in> set (v # vs) then x else M ! i ! k)"
    using M'(3) a assms(3) Cons.prems(1)
    by (auto simp: set_cell_nth eq)
  with M'(1,2) ia ij show ?case by simp
qed

lemma build_matrix_result:
  assumes "distinct ns" and "dims (length ns) M" and "distinct us" and "set us \<subseteq> set ns"
    and "\<forall>u \<in> set us. set (neighbors g u) \<subseteq> set ns"
  shows "\<exists>M'. build_matrix g ns (node_idx ns) us M = Inr M' \<and> dims (length ns) M' \<and>
           (\<forall>i < length ns. \<forall>k < length ns.
              M' ! i ! k =
                (if ns ! k \<in> set us
                 then (if neighbors g (ns ! k) = [] then 1 / real (length ns)
                       else if ns ! i \<in> set (neighbors g (ns ! k))
                            then 1 / real (length (neighbors g (ns ! k)))
                            else M ! i ! k)
                 else M ! i ! k))"
  using assms(2-5)
proof (induction us arbitrary: M)
  case Nil
  then show ?case by simp
next
  case (Cons u us)
  from Cons.prems obtain j where j: "j < length ns" "u = ns ! j"
    by (auto simp: in_set_conv_nth)
  let ?nb = "neighbors g u"
  let ?vs = "if length ?nb = 0 then ns else ?nb"
  let ?x = "if length ?nb = 0 then 1 / real (length ns) else 1 / real (length ?nb)"
  have sub: "set ?vs \<subseteq> set ns" using Cons.prems(4) by simp
  from fill_column_result [OF assms(1) Cons.prems(1) j(1) sub, of ?x] j(2)
  obtain M1 where M1: "fill_column (node_idx ns) u ?x ?vs M = Inr M1" "dims (length ns) M1"
    "\<forall>i < length ns. \<forall>k < length ns.
        M1 ! i ! k = (if k = j \<and> ns ! i \<in> set ?vs then ?x else M ! i ! k)"
    by blast
  have step: "build_matrix g ns (node_idx ns) (u # us) M = build_matrix g ns (node_idx ns) us M1"
    using M1(1) by (simp split: if_splits)
  from Cons.prems have p: "distinct us" "set us \<subseteq> set ns"
    "\<forall>u \<in> set us. set (neighbors g u) \<subseteq> set ns" "u \<notin> set us"
    by simp_all
  from Cons.IH [OF M1(2) p(1,2,3)] obtain M' where
    M': "build_matrix g ns (node_idx ns) us M1 = Inr M'" "dims (length ns) M'"
      "\<forall>i < length ns. \<forall>k < length ns.
              M' ! i ! k =
                (if ns ! k \<in> set us
                 then (if neighbors g (ns ! k) = [] then 1 / real (length ns)
                       else if ns ! i \<in> set (neighbors g (ns ! k))
                            then 1 / real (length (neighbors g (ns ! k)))
                            else M1 ! i ! k)
                 else M1 ! i ! k)"
    by blast
  have eq: "ns ! k = ns ! j \<longleftrightarrow> k = j" if "k < length ns" for k
    using that j(1) assms(1) by (simp add: nth_eq_iff_index_eq)
  have "\<forall>i < length ns. \<forall>k < length ns.
              M' ! i ! k =
                (if ns ! k \<in> set (u # us)
                 then (if neighbors g (ns ! k) = [] then 1 / real (length ns)
                       else if ns ! i \<in> set (neighbors g (ns ! k))
                            then 1 / real (length (neighbors g (ns ! k)))
                            else M ! i ! k)
                 else M ! i ! k)"
  proof (intro allI impI)
    fix i k assume ik: "i < length ns" "k < length ns"
    show "M' ! i ! k =
                (if ns ! k \<in> set (u # us)
                 then (if neighbors g (ns ! k) = [] then 1 / real (length ns)
                       else if ns ! i \<in> set (neighbors g (ns ! k))
                            then 1 / real (length (neighbors g (ns ! k)))
                            else M ! i ! k)
                 else M ! i ! k)"
    proof (cases "k = j")
      case True
      then have "ns ! k \<notin> set us" using p(4) j(2) by simp
      with M'(3) M1(3) ik True j(2) show ?thesis by simp
    next
      case False
      then have "ns ! k \<noteq> u" using eq ik j(2) by simp
      with M'(3) M1(3) ik False show ?thesis by simp
    qed
  qed
  with step M'(1,2) show ?case by simp
qed

lemma wf_neighbors:
  assumes "wf_digraph g" and "u \<in> set (nodes g)"
  shows "distinct (neighbors g u)" and "set (neighbors g u) \<subseteq> set (nodes g)"
proof -
  from assms(2) obtain vs where vs: "(u, vs) \<in> set g" by (auto simp: nodes_def)
  with assms(1) have "map_of g u = Some vs" by (simp add: wf_digraph_def)
  then have nb: "neighbors g u = vs" by (simp add: neighbors_def)
  from assms(1) vs have "distinct vs \<and> set vs \<subseteq> fst ` set g"
    by (auto simp: wf_digraph_def)
  with nb show "distinct (neighbors g u)" and "set (neighbors g u) \<subseteq> set (nodes g)"
    by (simp_all add: nodes_def)
qed

lemma wf_sorted_nodes:
  assumes "wf_digraph g"
  shows "distinct (sort (nodes g))" and "set (sort (nodes g)) = set (nodes g)"
    and "length (sort (nodes g)) = length g"
  using assms by (simp_all add: wf_digraph_def nodes_def)

lemma transition_matrix_result:
  fixes g :: "'a::linorder digraph"
  assumes "wf_digraph g"
  defines "ns \<equiv> sort (nodes g)"
  shows "\<exists>M. transition_matrix g = Inr M \<and> dims (length ns) M \<and>
           (\<forall>i < length ns. \<forall>k < length ns.
              M ! i ! k =
                (if neighbors g (ns ! k) = [] then 1 / real (length ns)
                 else if ns ! i \<in> set (neighbors g (ns ! k))
                      then 1 / real (length (neighbors g (ns ! k)))
                      else 0))"
proof -
  have d: "distinct ns" and s: "set ns = set (nodes g)"
    using wf_sorted_nodes [OF assms(1)] by (simp_all add: ns_def)
  have nb: "\<forall>u \<in> set ns. set (neighbors g u) \<subseteq> set ns"
    using wf_neighbors(2) [OF assms(1)] s by simp
  from build_matrix_result [OF d dims_zeros d subset_refl nb]
  obtain M where M: "build_matrix g ns (node_idx ns) ns (zeros (length ns)) = Inr M"
    "dims (length ns) M"
    "\<forall>i < length ns. \<forall>k < length ns.
              M ! i ! k =
                (if ns ! k \<in> set ns
                 then (if neighbors g (ns ! k) = [] then 1 / real (length ns)
                       else if ns ! i \<in> set (neighbors g (ns ! k))
                            then 1 / real (length (neighbors g (ns ! k)))
                            else zeros (length ns) ! i ! k)
                 else zeros (length ns) ! i ! k)"
    by blast
  have "transition_matrix g = Inr M"
    using M(1) by (simp add: transition_matrix_def ns_def Let_def)
  moreover have "\<forall>i < length ns. \<forall>k < length ns.
              M ! i ! k =
                (if neighbors g (ns ! k) = [] then 1 / real (length ns)
                 else if ns ! i \<in> set (neighbors g (ns ! k))
                      then 1 / real (length (neighbors g (ns ! k)))
                      else 0)"
    using M(3) by (simp add: zeros_nth)
  ultimately show ?thesis using M(2) by blast
qed

lemma count_members:
  assumes "distinct ns" and "distinct vs" and "set vs \<subseteq> set ns"
  shows "(\<Sum>i < length ns. if ns ! i \<in> set vs then c else (0::real)) = real (length vs) * c"
proof -
  have "(\<Sum>i < length ns. if ns ! i \<in> set vs then c else 0)
          = sum_list (map (\<lambda>n. if n \<in> set vs then c else 0) ns)"
    by (simp add: sum_list_sum_nth atLeast0LessThan)
  also have "\<dots> = (\<Sum>n \<in> set ns. if n \<in> set vs then c else 0)"
    using assms(1) by (simp add: sum_list_distinct_conv_sum_set)
  also have "\<dots> = (\<Sum>n \<in> set ns \<inter> set vs. c)"
    using sum.inter_restrict [of "set ns" "\<lambda>_. c" "set vs"] by simp
  also have "\<dots> = (\<Sum>n \<in> set vs. c)"
    using assms(3) by (simp add: Int_absorb1)
  also have "\<dots> = real (length vs) * c"
    using assms(2) by (simp add: distinct_card)
  finally show ?thesis .
qed

lemma column_sum:
  fixes g :: "'a::linorder digraph"
  assumes "wf_digraph g" and "transition_matrix g = Inr M" and "k < length g"
  shows "(\<Sum>i < length g. M ! i ! k) = 1"
proof -
  define ns where "ns = sort (nodes g)"
  have len: "length ns = length g" and d: "distinct ns" and s: "set ns = set (nodes g)"
    using wf_sorted_nodes [OF assms(1)] by (simp_all add: ns_def)
  from transition_matrix_result [OF assms(1)] assms(2) len
  have M: "\<forall>i < length g. \<forall>k < length g.
              M ! i ! k =
                (if neighbors g (ns ! k) = [] then 1 / real (length g)
                 else if ns ! i \<in> set (neighbors g (ns ! k))
                      then 1 / real (length (neighbors g (ns ! k)))
                      else 0)"
    by (simp add: ns_def)
  let ?nb = "neighbors g (ns ! k)"
  have kn: "ns ! k \<in> set (nodes g)" using assms(3) len s nth_mem [of k ns] by simp
  show ?thesis
  proof (cases "?nb = []")
    case True
    with M assms(3) have "(\<Sum>i < length g. M ! i ! k) = (\<Sum>i < length g. 1 / real (length g))"
      by simp
    also have "\<dots> = 1" using assms(3) by auto
    finally show ?thesis .
  next
    case False
    with M assms(3) have "(\<Sum>i < length g. M ! i ! k)
        = (\<Sum>i < length ns. if ns ! i \<in> set ?nb then 1 / real (length ?nb) else 0)"
      by (simp add: len)
    also have "\<dots> = real (length ?nb) * (1 / real (length ?nb))"
      using d wf_neighbors [OF assms(1) kn] s by (intro count_members) simp_all
    also have "\<dots> = 1" using False by simp
    finally show ?thesis .
  qed
qed

lemma transition_matrix_stochastic:
  fixes g :: "'a::linorder digraph"
  assumes "wf_digraph g"
  shows "\<exists>M. transition_matrix g = Inr M \<and> stochastic (length g) M"
proof -
  have len: "length (sort (nodes g)) = length g"
    using wf_sorted_nodes(3) [OF assms] .
  from transition_matrix_result [OF assms] len obtain M where
    M: "transition_matrix g = Inr M" "dims (length g) M"
      "\<forall>i < length g. \<forall>k < length g.
              M ! i ! k =
                (if neighbors g (sort (nodes g) ! k) = [] then 1 / real (length g)
                 else if sort (nodes g) ! i \<in> set (neighbors g (sort (nodes g) ! k))
                      then 1 / real (length (neighbors g (sort (nodes g) ! k)))
                      else 0)"
    by auto
  have "\<forall>k < length g. (\<Sum>i < length g. M ! i ! k) = 1"
    using column_sum [OF assms M(1)] by simp
  moreover have "\<forall>i < length g. \<forall>k < length g. 0 \<le> M ! i ! k"
    using M(3) by simp
  ultimately show ?thesis using M(1,2) by (auto simp: stochastic_def)
qed

lemma transition_matrix_cong:
  fixes g1 g2 :: "'a::linorder digraph"
  assumes "wf_digraph g1" and "wf_digraph g2"
    and "set (nodes g1) = set (nodes g2)"
    and "\<forall>u. set (neighbors g1 u) = set (neighbors g2 u)"
  shows "sort (nodes g1) = sort (nodes g2)" and "transition_matrix g1 = transition_matrix g2"
proof -
  let ?ns = "sort (nodes g1)"
  show ns: "?ns = sort (nodes g2)"
    using wf_sorted_nodes(1,2) [OF assms(1)] wf_sorted_nodes(1,2) [OF assms(2)] assms(3)
    by (intro sorted_distinct_set_unique) simp_all
  let ?N = "length ?ns"
  from transition_matrix_result [OF assms(1)] obtain M1 where
    M1: "transition_matrix g1 = Inr M1" "dims ?N M1"
      "\<forall>i < ?N. \<forall>k < ?N.
              M1 ! i ! k =
                (if neighbors g1 (?ns ! k) = [] then 1 / real ?N
                 else if ?ns ! i \<in> set (neighbors g1 (?ns ! k))
                      then 1 / real (length (neighbors g1 (?ns ! k)))
                      else 0)"
    by blast
  from transition_matrix_result [OF assms(2)] ns obtain M2 where
    M2: "transition_matrix g2 = Inr M2" "dims ?N M2"
      "\<forall>i < ?N. \<forall>k < ?N.
              M2 ! i ! k =
                (if neighbors g2 (?ns ! k) = [] then 1 / real ?N
                 else if ?ns ! i \<in> set (neighbors g2 (?ns ! k))
                      then 1 / real (length (neighbors g2 (?ns ! k)))
                      else 0)"
    by auto
  have nb: "length (neighbors g1 (?ns ! k)) = length (neighbors g2 (?ns ! k))"
    and em: "neighbors g1 (?ns ! k) = [] \<longleftrightarrow> neighbors g2 (?ns ! k) = []"
    if "k < ?N" for k
  proof -
    from that have "?ns ! k \<in> set ?ns" by (rule nth_mem)
    then have in1: "?ns ! k \<in> set (nodes g1)" and in2: "?ns ! k \<in> set (nodes g2)"
      using assms(3) by simp_all
    have "card (set (neighbors g1 (?ns ! k))) = card (set (neighbors g2 (?ns ! k)))"
      using assms(4) by simp
    then show "length (neighbors g1 (?ns ! k)) = length (neighbors g2 (?ns ! k))"
      using wf_neighbors(1) [OF assms(1) in1] wf_neighbors(1) [OF assms(2) in2]
      by (simp add: distinct_card)
    then show "neighbors g1 (?ns ! k) = [] \<longleftrightarrow> neighbors g2 (?ns ! k) = []"
      by (metis length_0_conv)
  qed
  have entry: "M1 ! i ! k = M2 ! i ! k" if "i < ?N" "k < ?N" for i k
    using M1(3) M2(3) that nb [OF that(2)] em [OF that(2)] assms(4) by simp
  have "M1 = M2"
  proof (rule nth_equalityI)
    show "length M1 = length M2" using M1(2) M2(2) by (simp add: dims_def)
  next
    fix i assume "i < length M1"
    then have i: "i < ?N" using M1(2) by (simp add: dims_def)
    show "M1 ! i = M2 ! i"
    proof (rule nth_equalityI)
      show "length (M1 ! i) = length (M2 ! i)"
        using dims_nth [OF M1(2) i] dims_nth [OF M2(2) i] by simp
    next
      fix k assume "k < length (M1 ! i)"
      then have "k < ?N" using dims_nth [OF M1(2) i] by simp
      with i show "M1 ! i ! k = M2 ! i ! k" by (rule entry)
    qed
  qed
  with M1(1) M2(1) show "transition_matrix g1 = transition_matrix g2" by simp
qed

section \<open>One update of the rank vector\<close>

lemma dot_sum:
  "length a = n \<Longrightarrow> length b = n \<Longrightarrow> dot a b = (\<Sum>k < n. a ! k * b ! k)"
  by (simp add: dot_def sum_list_sum_nth atLeast0LessThan)

lemma length_update: "length (update N d M v) = length M"
  by (simp add: update_def matvec_def scale_def)

lemma update_nth:
  assumes "dims N M" and "length v = N" and "i < N"
  shows "update N d M v ! i = (1 - d) / real N + d * (\<Sum>k < N. M ! i ! k * v ! k)"
proof -
  have lm: "length M = N" and li: "length (M ! i) = N"
    using assms(1,3) by (auto simp: dims_def)
  have "update N d M v ! i = (1 - d) / real N + dot (map ((*) d) (M ! i)) v"
    using assms(3) lm by (simp add: update_def matvec_def scale_def)
  also have "dot (map ((*) d) (M ! i)) v = (\<Sum>k < N. d * M ! i ! k * v ! k)"
    using li assms(2) by (simp add: dot_sum [of _ N])
  also have "\<dots> = d * (\<Sum>k < N. M ! i ! k * v ! k)"
    by (simp add: sum_distrib_left mult.assoc)
  finally show ?thesis .
qed

lemma sum_list_update:
  assumes "dims N M" and "length v = N" and "0 < N"
    and cols: "\<forall>k < N. (\<Sum>i < N. M ! i ! k) = 1"
  shows "sum_list (update N d M v) = (1 - d) + d * sum_list v"
proof -
  have lm: "length M = N" using assms(1) by (simp add: dims_def)
  have "sum_list (update N d M v) = (\<Sum>i < N. update N d M v ! i)"
    by (simp add: sum_list_sum_nth length_update lm atLeast0LessThan)
  also have "\<dots> = (\<Sum>i < N. (1 - d) / real N + d * (\<Sum>k < N. M ! i ! k * v ! k))"
    using assms(1,2) by (simp add: update_nth)
  also have "\<dots> = (1 - d) + d * (\<Sum>i < N. \<Sum>k < N. M ! i ! k * v ! k)"
    using assms(3) by (simp add: sum.distrib sum_distrib_left)
  also have "(\<Sum>i < N. \<Sum>k < N. M ! i ! k * v ! k) = (\<Sum>k < N. \<Sum>i < N. M ! i ! k * v ! k)"
    by (rule sum.swap)
  also have "\<dots> = (\<Sum>k < N. (\<Sum>i < N. M ! i ! k) * v ! k)"
    by (simp add: sum_distrib_right)
  also have "\<dots> = (\<Sum>k < N. v ! k)"
    using cols by simp
  also have "\<dots> = sum_list v"
    using assms(2) by (simp add: sum_list_sum_nth atLeast0LessThan)
  finally show ?thesis .
qed

lemma update_nonneg:
  assumes "dims N M" and "length v = N" and "0 \<le> d" and "d \<le> 1"
    and "\<forall>i < N. \<forall>k < N. 0 \<le> M ! i ! k" and "\<forall>x \<in> set v. 0 \<le> x"
  shows "\<forall>x \<in> set (update N d M v). 0 \<le> x"
proof -
  have lm: "length M = N" using assms(1) by (simp add: dims_def)
  have "0 \<le> update N d M v ! i" if "i < N" for i
  proof -
    have "0 \<le> M ! i ! k * v ! k" if "k < N" for k
      using assms(2,5,6) that \<open>i < N\<close> by simp
    then have "0 \<le> (\<Sum>k < N. M ! i ! k * v ! k)" by (intro sum_nonneg) simp
    with assms(3,4) show ?thesis
      using that assms(1,2) by (simp add: update_nth)
  qed
  then show ?thesis
    by (auto simp: in_set_conv_nth length_update lm)
qed

lemma update_mass:
  assumes "stochastic N M" and "0 < N" and "length v = N" and "sum_list v = 1"
  shows "length (update N d M v) = N" and "sum_list (update N d M v) = 1"
proof -
  from assms(1) have d: "dims N M" and c: "\<forall>k < N. (\<Sum>i < N. M ! i ! k) = 1"
    by (simp_all add: stochastic_def)
  from d show "length (update N d M v) = N" by (simp add: length_update dims_def)
  from sum_list_update [OF d assms(3,2) c, of d] assms(4)
  show "sum_list (update N d M v) = 1" by simp
qed

section \<open>The iteration loop\<close>

lemma power_iteration_mass:
  assumes "stochastic N M" and "0 < N"
  shows "length v = N \<Longrightarrow> sum_list v = 1 \<Longrightarrow>
         \<exists>out v'. power_iteration N d M tol is v = (out, Inr v') \<and>
                   length v' = N \<and> sum_list v' = 1"
proof (induction "is" arbitrary: v)
  case Nil
  then show ?case by simp
next
  case (Cons i "is")
  let ?w = "update N d M v"
  from update_mass [OF assms Cons.prems] have w: "length ?w = N" "sum_list ?w = 1" .
  show ?case
  proof (cases "norm1 (vsub ?w v) < tol")
    case True
    with assms(2) Cons.prems show ?thesis by simp
  next
    case False
    with assms(2) Cons.IH [OF w] show ?thesis by simp
  qed
qed

lemma power_iteration_nonneg:
  assumes "stochastic N M" and "0 < N" and "0 \<le> d" and "d \<le> 1"
  shows "length v = N \<Longrightarrow> \<forall>x \<in> set v. 0 \<le> x \<Longrightarrow>
         power_iteration N d M tol is v = (out, Inr v') \<Longrightarrow> \<forall>x \<in> set v'. 0 \<le> x"
proof (induction "is" arbitrary: v)
  case Nil
  then show ?case by simp
next
  case (Cons i "is")
  let ?w = "update N d M v"
  from assms(1) have d: "dims N M" and p: "\<forall>i < N. \<forall>k < N. 0 \<le> M ! i ! k"
    by (simp_all add: stochastic_def)
  have w: "length ?w = N" using d by (simp add: length_update dims_def)
  have nn: "\<forall>x \<in> set ?w. 0 \<le> x"
    using update_nonneg [OF d Cons.prems(1) assms(3,4) p Cons.prems(2)] .
  show ?case
  proof (cases "norm1 (vsub ?w v) < tol")
    case True
    with assms(2) Cons.prems show ?thesis by simp
  next
    case False
    with assms(2) Cons.prems(3) have "power_iteration N d M tol is ?w = (out, Inr v')"
      by simp
    from Cons.IH [OF w nn this] show ?thesis .
  qed
qed


lemma power_iteration_exhausted:
  assumes "0 < N"
  shows "(\<forall>k < length is. \<not> norm1 (vsub ((update N d M ^^ Suc k) v) ((update N d M ^^ k) v)) < tol)
         \<Longrightarrow> power_iteration N d M tol is v = ([], Inr ((update N d M ^^ length is) v))"
proof (induction "is" arbitrary: v)
  case Nil
  then show ?case by simp
next
  case (Cons i "is")
  let ?w = "update N d M v"
  from Cons.prems have first: "\<not> norm1 (vsub ?w v) < tol" by auto
  have "\<forall>k < length is. \<not> norm1 (vsub ((update N d M ^^ Suc k) ?w) ((update N d M ^^ k) ?w)) < tol"
  proof (intro allI impI)
    fix k assume "k < length is"
    then have "Suc k < length (i # is)" by simp
    with Cons.prems have "\<not> norm1 (vsub ((update N d M ^^ Suc (Suc k)) v)
                                        ((update N d M ^^ Suc k) v)) < tol"
      by blast
    then show "\<not> norm1 (vsub ((update N d M ^^ Suc k) ?w) ((update N d M ^^ k) ?w)) < tol"
      by (simp add: funpow_swap1)
  qed
  from Cons.IH [OF this] first assms show ?case
    by (simp add: funpow_swap1)
qed

section \<open>The solver as a whole\<close>

lemma items_zip:
  "length ns = n \<Longrightarrow> length v = n \<Longrightarrow> map (\<lambda>i. (ns ! i, v ! i)) [0..<n] = zip ns v"
  by (rule nth_equalityI) simp_all

lemma initial_vector:
  assumes "0 < N"
  shows "length (replicate N (1 / real N)) = N"
    and "sum_list (replicate N (1 / real N)) = 1"
    and "\<forall>x \<in> set (replicate N (1 / real N)). 0 \<le> x"
  using assms by (simp_all add: sum_list_replicate)

lemma manual_pagerank_unfold:
  fixes g :: "'a::linorder digraph"
  assumes "wf_digraph g" and "transition_matrix g = Inr M"
  shows "manual_pagerank g d its tol =
     (case power_iteration (length g) d M tol [0..<nat its]
             (replicate (length g) (1 / real (length g))) of
        (out, Inl e) \<Rightarrow> (out, Inl e)
      | (out, Inr v) \<Rightarrow>
          (out, Inr (map (\<lambda>i. (sort (nodes g) ! i, v ! i)) [0..<length g])))"
  using assms(2) wf_sorted_nodes(3) [OF assms(1)]
  by (simp add: manual_pagerank_def Let_def)

lemma manual_pagerank_returns:
  fixes g :: "'a::linorder digraph"
  assumes "wf_digraph g" and "g \<noteq> []"
  shows "\<exists>out v. manual_pagerank g d its tol = (out, Inr (zip (sort (nodes g)) v)) \<and>
           length v = length g \<and> sum_list v = 1 \<and>
           (0 \<le> d \<and> d \<le> 1 \<longrightarrow> (\<forall>x \<in> set v. 0 \<le> x))"
proof -
  let ?N = "length g"
  let ?v0 = "replicate ?N (1 / real ?N)"
  have N: "0 < ?N" using assms(2) by simp
  from transition_matrix_stochastic [OF assms(1)] obtain M where
    M: "transition_matrix g = Inr M" "stochastic ?N M" by blast
  from power_iteration_mass [OF M(2) N initial_vector(1,2) [OF N], of d tol "[0..<nat its]"]
  obtain out v where
    run: "power_iteration ?N d M tol [0..<nat its] ?v0 = (out, Inr v)"
      and v: "length v = ?N" "sum_list v = 1"
    by blast
  have "manual_pagerank g d its tol =
          (out, Inr (map (\<lambda>i. (sort (nodes g) ! i, v ! i)) [0..<?N]))"
    using manual_pagerank_unfold [OF assms(1) M(1), of d its tol] run by simp
  also have "map (\<lambda>i. (sort (nodes g) ! i, v ! i)) [0..<?N] = zip (sort (nodes g)) v"
    using wf_sorted_nodes(3) [OF assms(1)] v(1) by (rule items_zip)
  finally have res: "manual_pagerank g d its tol = (out, Inr (zip (sort (nodes g)) v))" .
  have "\<forall>x \<in> set v. 0 \<le> x" if "0 \<le> d \<and> d \<le> 1"
    using power_iteration_nonneg [OF M(2) N _ _ initial_vector(1,3) [OF N] run] that
    by blast
  with res v show ?thesis by blast
qed

lemma manual_pagerank_empty:
  "manual_pagerank ([] :: 'a::linorder digraph) d its tol =
     ([], if its < 1 then Inr [] else Inl ZeroDivisionError)"
proof (cases "its < 1")
  case True
  then show ?thesis
    by (simp add: manual_pagerank_def transition_matrix_def nodes_def zeros_def)
next
  case False
  then have "0 < nat its" by simp
  then have "[0..<nat its] = 0 # [Suc 0..<nat its]" by (rule upt_conv_Cons)
  with False show ?thesis
    by (simp add: manual_pagerank_def transition_matrix_def nodes_def zeros_def)
qed


lemma manual_pagerank_keys:
  fixes g :: "'a::linorder digraph"
  assumes "manual_pagerank g d its tol = (out, Inr ranks)"
  shows "map fst ranks = sort (nodes g)"
proof -
  have "map (fst \<circ> (\<lambda>i. (sort (nodes g) ! i, v ! i))) [0..<length (sort (nodes g))]
          = sort (nodes g)" for v :: vec
    using map_nth [of "sort (nodes g)"] by (simp add: comp_def)
  with assms show ?thesis
    by (auto simp: manual_pagerank_def Let_def split: sum.splits prod.splits)
qed

section \<open>Runs on the example network\<close>

lemma G_value: "G = [(''A'', [''B'', ''C'']), (''B'', []), (''C'', [''A''])]"
  by (simp add: G_def add_edges_from_def add_nodes_from_def add_node_def add_edge_def)

lemma wf_G: "wf_digraph G"
  unfolding G_def by (intro wf_add_edges_from wf_add_nodes_from wf_empty)

lemma G_reordered_value:
  "G_reordered = [(''C'', [''A'']), (''B'', []), (''A'', [''C'', ''B''])]"
  by (simp add: G_reordered_def add_edges_from_def add_nodes_from_def add_node_def add_edge_def)

lemma wf_G_reordered: "wf_digraph G_reordered"
  unfolding G_reordered_def by (intro wf_add_edges_from wf_add_nodes_from wf_empty)

lemma nodes_G: "nodes G = [''A'', ''B'', ''C'']"
  by (simp add: G_value nodes_def)

lemma length_nodes_G: "length (nodes G) = 3"
  by (simp add: nodes_G)

lemma transition_matrix_G:
  "transition_matrix G = Inr [[0, 1/3, 1], [1/2, 1/3, 0], [1/2, 1/3, 0]]"
  by code_simp

lemma sort_nodes_G: "sort (nodes G) = [''A'', ''B'', ''C'']"
  by code_simp

lemma update_G:
  "update 3 (17/20) [[0, 1/3, 1], [1/2, 1/3, 0], [1/2, 1/3, 0]] [a, b, c] =
     [1/20 + (17/60 * b + 17/20 * c), 1/20 + (17/40 * a + 17/60 * b),
      1/20 + (17/40 * a + 17/60 * b)]"
  by (simp add: update_def matvec_def scale_def dot_def)

lemma update_G_any:
  "update 3 d [[0, 1/3, 1], [1/2, 1/3, 0], [1/2, 1/3, 0]] [a, b, c] =
     [(1 - d) / 3 + (d * b / 3 + d * c), (1 - d) / 3 + (d * a / 2 + d * b / 3),
      (1 - d) / 3 + (d * a / 2 + d * b / 3)]"
  by (simp add: update_def matvec_def scale_def dot_def)

lemma two_rounds:
  "power_iteration 3 d M tol [0..<2] v =
     (if norm1 (vsub (update 3 d M v) v) < tol then ([converged_line 0], Inr v)
      else if norm1 (vsub (update 3 d M (update 3 d M v)) (update 3 d M v)) < tol
           then ([converged_line 1], Inr (update 3 d M v))
           else ([], Inr (update 3 d M (update 3 d M v))))"
proof -
  have "[0..<2] = [0, Suc 0]" by (simp add: upt_rec)
  then show ?thesis by (simp add: Let_def)
qed

lemma loop_G:
  "power_iteration 3 (17/20) [[0, 1/3, 1], [1/2, 1/3, 0], [1/2, 1/3, 0]] tol [i..<n] [a, b, c] =
     (if i < n then
        (if \<bar>1/20 + (17/60 * b + 17/20 * c) - a\<bar> + (\<bar>1/20 + (17/40 * a + 17/60 * b) - b\<bar>
              + \<bar>1/20 + (17/40 * a + 17/60 * b) - c\<bar>) < tol
         then ([converged_line i], Inr [a, b, c])
         else power_iteration 3 (17/20) [[0, 1/3, 1], [1/2, 1/3, 0], [1/2, 1/3, 0]] tol [Suc i..<n]
                [1/20 + (17/60 * b + 17/20 * c), 1/20 + (17/40 * a + 17/60 * b),
                 1/20 + (17/40 * a + 17/60 * b)])
      else ([], Inr [a, b, c]))"
proof (cases "i < n")
  case True
  then have "[i..<n] = i # [Suc i..<n]" by (rule upt_conv_Cons)
  with True show ?thesis
    by (simp add: update_G norm1_def vsub_def Let_def del: upt_rec_numeral)
next
  case False
  then show ?thesis by simp
qed

lemmas loop_G_0 = loop_G [of _ 0 "numeral n"] for n

lemmas loop_G_1 = loop_G [of _ "Suc 0" "numeral n", folded numeral_2_eq_2] for n

lemmas loop_G_n = loop_G [of _ "numeral i" "numeral n"] for i n

lemma line0: "converged_line 0 = ''Converged at iteration 0''"
  by code_simp

lemma line22: "converged_line 22 = ''Converged at iteration 22''"
  by code_simp

lemma loop_G_default:
  "power_iteration 3 (17/20) [[0, 1/3, 1], [1/2, 1/3, 0], [1/2, 1/3, 0]] (1/1000000) [0..<100]
      [1/3, 1/3, 1/3] =
   ([converged_line 22],
    Inr [741126727625980832776089307253921 / 1882863576540000000000000000000000,
         1141736848914019167223910692746079 / 3765727153080000000000000000000000,
         1141736848914019167223910692746079 / 3765727153080000000000000000000000])"
  by (simp add: loop_G_0 loop_G_1 loop_G_n del: upt_rec_numeral)

lemma manual_pagerank_G:
  assumes "power_iteration 3 d [[0, 1/3, 1], [1/2, 1/3, 0], [1/2, 1/3, 0]] tol [0..<nat its]
             [1/3, 1/3, 1/3] = (out, Inr [a, b, c])"
  shows "manual_pagerank G d its tol = (out, Inr [(''A'', a), (''B'', b), (''C'', c)])"
proof -
  have l: "length G = 3" by (simp add: G_value)
  have r: "replicate 3 (1 / 3 :: real) = [1/3, 1/3, 1/3]" by (simp add: numeral_3_eq_3)
  have u: "[0..<3] = [0, 1, 2]" by (simp add: numeral_3_eq_3)
  from manual_pagerank_unfold [OF wf_G transition_matrix_G, of d its tol] assms
  show ?thesis by (simp add: l r u sort_nodes_G)
qed

lemma G_default_run:
  "manual_pagerank G (17/20) 100 (1/1000000) =
     ([''Converged at iteration 22''],
      Inr [(''A'', 741126727625980832776089307253921 / 1882863576540000000000000000000000),
           (''B'', 1141736848914019167223910692746079 / 3765727153080000000000000000000000),
           (''C'', 1141736848914019167223910692746079 / 3765727153080000000000000000000000)])"
proof -
  have "power_iteration 3 (17/20) [[0, 1/3, 1], [1/2, 1/3, 0], [1/2, 1/3, 0]] (1/1000000)
          [0..<nat 100] [1/3, 1/3, 1/3] =
        ([''Converged at iteration 22''],
         Inr [741126727625980832776089307253921 / 1882863576540000000000000000000000,
              1141736848914019167223910692746079 / 3765727153080000000000000000000000,
              1141736848914019167223910692746079 / 3765727153080000000000000000000000])"
    using loop_G_default by (simp add: line22 del: upt_rec_numeral)
  then show ?thesis by (rule manual_pagerank_G)
qed

lemma G_loose_run:
  "manual_pagerank G (17/20) 100 (1/2) =
     ([''Converged at iteration 0''], Inr [(''A'', 1/3), (''B'', 1/3), (''C'', 1/3)])"
proof -
  have "power_iteration 3 (17/20) [[0, 1/3, 1], [1/2, 1/3, 0], [1/2, 1/3, 0]] (1/2)
          [0..<nat 100] [1/3, 1/3, 1/3] = ([''Converged at iteration 0''], Inr [1/3, 1/3, 1/3])"
    by (simp add: loop_G_0 line0 del: upt_rec_numeral)
  then show ?thesis by (rule manual_pagerank_G)
qed

section \<open>The claims of the specification\<close>

text \<open>
  In every statement below \<open>wf_digraph g\<close> stands for the invariant of the graph class
  and \<open>g \<noteq> []\<close> for a graph with at least one node. The result of a call is the pair of the
  lines printed and either the exception raised (\<open>Inl\<close>) or the items of the dictionary
  returned (\<open>Inr\<close>).
\<close>

subsection \<open>C1: the ranks sum to one\<close>

text \<open>
  Claim C1. For every non-empty directed graph and every damping factor in the open
  interval from 0 to 1, the call returns a mapping, and the ranks in it sum to 1 within
  \<open>1e-6\<close>. In exact arithmetic the sum is exactly 1, for every number of iterations and
  every tolerance; the bounds on \<open>d\<close> are not needed for it.
\<close>

theorem sum_to_one:
  fixes g :: "'a::linorder digraph"
  assumes "wf_digraph g" and "g \<noteq> []" and "0 < d" and "d < 1"
  shows "\<exists>out ranks. manual_pagerank g d its tol = (out, Inr ranks) \<and>
           \<bar>sum_list (map snd ranks) - 1\<bar> \<le> 1 / 1000000"
proof -
  from manual_pagerank_returns [OF assms(1,2), of d its tol] obtain out v where
    r: "manual_pagerank g d its tol = (out, Inr (zip (sort (nodes g)) v))"
      "length v = length g" "sum_list v = 1"
    by blast
  have "map snd (zip (sort (nodes g)) v) = v"
    using r(2) wf_sorted_nodes(3) [OF assms(1)] by (simp add: map_snd_zip)
  with r(1,3) show ?thesis by simp
qed

theorem sum_to_one_witness:
  "wf_digraph G \<and> G \<noteq> [] \<and> (0 :: real) < 17/20 \<and> (17/20 :: real) < 1 \<and>
   (\<exists>out ranks. manual_pagerank G (17/20) 100 (1/1000000) = (out, Inr ranks) \<and>
      \<bar>sum_list (map snd ranks) - 1\<bar> \<le> 1 / 1000000)"
proof -
  have ne: "G \<noteq> []" by (simp add: G_value)
  have d: "(0 :: real) < 17/20" "(17/20 :: real) < 1" by simp_all
  from sum_to_one [OF wf_G ne d, of 100 "1/1000000"] wf_G ne d show ?thesis by simp
qed

subsection \<open>C2: argument validation\<close>

text \<open>
  Claim C2 says that an empty graph, a damping factor outside the open interval from 0 to 1,
  an iteration bound below 1 and a tolerance that is not positive are each rejected with
  an invalid-parameter error before anything is computed. The function has no such check.
  On the example network it returns a mapping for an iteration bound of 0, for a damping
  factor of 5 (with a negative rank for \<open>A\<close>) and for a tolerance of 0; for the empty
  graph it raises the division error of the first iteration, after the empty matrix was
  built.
\<close>

theorem invalid_arguments_accepted:
  "manual_pagerank G (17/20) 0 (1/1000000) =
     ([], Inr [(''A'', 1/3), (''B'', 1/3), (''C'', 1/3)]) \<and>
   manual_pagerank G 5 2 (1/1000000) =
     ([], Inr [(''A'', - (26/27)), (''B'', 53/54), (''C'', 53/54)]) \<and>
   manual_pagerank G (17/20) 1 0 =
     ([], Inr [(''A'', 77/180), (''B'', 103/360), (''C'', 103/360)]) \<and>
   manual_pagerank ([] :: string digraph) (17/20) 100 (1/1000000) =
     ([], Inl ZeroDivisionError)"
proof (intro conjI)
  show "manual_pagerank G (17/20) 0 (1/1000000) =
     ([], Inr [(''A'', 1/3), (''B'', 1/3), (''C'', 1/3)])"
    by (rule manual_pagerank_G) simp
  show "manual_pagerank G 5 2 (1/1000000) =
     ([], Inr [(''A'', - (26/27)), (''B'', 53/54), (''C'', 53/54)])"
    by (rule manual_pagerank_G) (simp add: two_rounds update_G_any norm1_def vsub_def del: upt_rec_numeral)
  show "manual_pagerank G (17/20) 1 0 =
     ([], Inr [(''A'', 77/180), (''B'', 103/360), (''C'', 103/360)])"
    by (rule manual_pagerank_G) (simp add: Let_def update_G_any norm1_def vsub_def)
  show "manual_pagerank ([] :: string digraph) (17/20) 100 (1/1000000) =
     ([], Inl ZeroDivisionError)"
    by (simp add: manual_pagerank_empty)
qed

text \<open>
  Claim C2 as amended. The solver validates none of its arguments. For a non-empty graph
  it returns a mapping whatever the damping factor, the iteration bound and the tolerance
  are. For the empty graph it returns the empty mapping when the iteration bound is below
  1 and raises \<open>ZeroDivisionError\<close> otherwise.
\<close>

theorem no_parameter_validation:
  fixes g :: "'a::linorder digraph"
  shows "(wf_digraph g \<and> g \<noteq> [] \<longrightarrow>
            (\<exists>out ranks. manual_pagerank g d its tol = (out, Inr ranks)))
         \<and> manual_pagerank ([] :: 'a digraph) d its tol =
             ([], if its < 1 then Inr [] else Inl ZeroDivisionError)"
  using manual_pagerank_returns [of g d its tol] manual_pagerank_empty [of d its tol]
  by blast

theorem no_parameter_validation_witness:
  "wf_digraph G \<and> G \<noteq> [] \<and>
   (\<exists>out ranks. manual_pagerank G 5 (- 3) (- 1) = (out, Inr ranks))"
proof -
  have ne: "G \<noteq> []" by (simp add: G_value)
  from no_parameter_validation [of G 5 "- 3" "- 1"] wf_G ne show ?thesis by simp
qed

subsection \<open>C3: the vector returned on convergence\<close>

text \<open>
  Claim C3 says that when the distance between \<open>v_next\<close> and \<open>v\<close> falls below the
  tolerance, the mapping returned is built from \<open>v_next\<close>. The loop leaves through
  \<^verbatim>\<open>break\<close> before the assignment \<^verbatim>\<open>v = v_next\<close>, so the mapping is built from
  the previous iterate \<open>v\<close>. On the example network with tolerance \<open>1/2\<close> the first
  update gives \<open>[77/180, 103/360, 103/360]\<close>, at distance \<open>17/90\<close> from the initial
  vector; the loop stops and the call returns the initial vector.
\<close>

theorem converged_result_is_previous_iterate:
  "manual_pagerank G (17/20) 100 (1/2) =
     ([''Converged at iteration 0''], Inr [(''A'', 1/3), (''B'', 1/3), (''C'', 1/3)]) \<and>
   transition_matrix G = Inr [[0, 1/3, 1], [1/2, 1/3, 0], [1/2, 1/3, 0]] \<and>
   update 3 (17/20) [[0, 1/3, 1], [1/2, 1/3, 0], [1/2, 1/3, 0]] [1/3, 1/3, 1/3] =
     [77/180, 103/360, 103/360] \<and>
   norm1 (vsub [77/180, 103/360, 103/360] [1/3, 1/3, 1/3]) = 17/90"
  using G_loose_run transition_matrix_G
  by (simp add: update_G norm1_def vsub_def)

subsection \<open>C4: the transition matrix is column-stochastic\<close>

text \<open>
  Claim C4. The matrix is built without error and is square of size \<open>N\<close>, the number of
  nodes. With the nodes in sorted order, column \<open>j\<close> of a node with out-neighbours holds
  \<open>1/d\<^sub>j\<close> in the row of each out-neighbour and 0 elsewhere, column \<open>j\<close> of a dangling
  node holds \<open>1/N\<close> in every row, and every column sums to exactly 1.
\<close>

theorem transition_matrix_column_stochastic:
  fixes g :: "'a::linorder digraph"
  assumes "wf_digraph g"
  shows "\<exists>M. transition_matrix g = Inr M \<and>
           length M = length (nodes g) \<and> (\<forall>row \<in> set M. length row = length (nodes g)) \<and>
           (\<forall>j < length (nodes g). \<forall>i < length (nodes g).
              M ! i ! j =
                (if neighbors g (sort (nodes g) ! j) = [] then 1 / real (length (nodes g))
                 else if sort (nodes g) ! i \<in> set (neighbors g (sort (nodes g) ! j))
                      then 1 / real (length (neighbors g (sort (nodes g) ! j)))
                      else 0)) \<and>
           (\<forall>j < length (nodes g). (\<Sum>i < length (nodes g). M ! i ! j) = 1)"
proof -
  have len: "length (sort (nodes g)) = length (nodes g)" "length g = length (nodes g)"
    by (simp_all add: nodes_def)
  from transition_matrix_result [OF assms] obtain M where
    M: "transition_matrix g = Inr M" "dims (length (sort (nodes g))) M"
      "\<forall>i < length (sort (nodes g)). \<forall>k < length (sort (nodes g)).
              M ! i ! k =
                (if neighbors g (sort (nodes g) ! k) = [] then 1 / real (length (sort (nodes g)))
                 else if sort (nodes g) ! i \<in> set (neighbors g (sort (nodes g) ! k))
                      then 1 / real (length (neighbors g (sort (nodes g) ! k)))
                      else 0)"
    by blast
  have cols: "\<forall>j < length (nodes g). (\<Sum>i < length (nodes g). M ! i ! j) = 1"
    using column_sum [OF assms M(1)] len(2) by simp
  from M(2) have shape: "length M = length (nodes g)" "\<forall>row \<in> set M. length row = length (nodes g)"
    by (simp_all add: dims_def)
  from M(1) shape M(3) cols show ?thesis
    unfolding len(1) by blast
qed

theorem transition_matrix_column_stochastic_witness:
  "wf_digraph G \<and>
   (\<exists>M. transition_matrix G = Inr M \<and> length M = 3 \<and>
      M ! 0 ! 1 = 1/3 \<and> M ! 1 ! 0 = 1/2 \<and> M ! 1 ! 2 = 0 \<and>
      M ! 0 ! 0 + M ! 1 ! 0 + M ! 2 ! 0 = 1)"
proof -
  from transition_matrix_column_stochastic [OF wf_G] obtain M where
    M: "transition_matrix G = Inr M" "length M = length (nodes G)"
    by blast
  with transition_matrix_G have "M = [[0, 1/3, 1], [1/2, 1/3, 0], [1/2, 1/3, 0]]" by simp
  with M wf_G show ?thesis by (simp add: nodes_G)
qed

subsection \<open>C5: the example network\<close>

text \<open>
  Claim C5 says that on the example network with damping \<open>0.85\<close> the result agrees with a
  reference PageRank within \<open>1e-3\<close> per node and ranks \<open>A\<close> highest, \<open>C\<close> second and
  \<open>B\<close> lowest. Rows \<open>B\<close> and \<open>C\<close> of the transition matrix are equal, so \<open>B\<close> and
  \<open>C\<close> receive the same rank in every iterate: \<open>C\<close> is not ranked above \<open>B\<close>. The
  call of line 84 returns the following mapping.
\<close>

theorem example_B_and_C_tie:
  "snd (manual_pagerank G (17/20) 100 (1/1000000)) =
     Inr [(''A'', 741126727625980832776089307253921 / 1882863576540000000000000000000000),
          (''B'', 1141736848914019167223910692746079 / 3765727153080000000000000000000000),
          (''C'', 1141736848914019167223910692746079 / 3765727153080000000000000000000000)]"
  by (simp add: G_default_run)

text \<open>
  Claim C5 as amended. On the example network with damping \<open>0.85\<close>, 100 iterations and
  tolerance \<open>1e-6\<close> the solver ranks \<open>A\<close> strictly highest and gives \<open>B\<close> and \<open>C\<close>
  the same rank. Each rank is within \<open>1e-6\<close> of the exact stationary vector
  \<open>(37/94, 57/188, 57/188)\<close>, the fixed point of the update, and therefore within
  \<open>1e-3\<close> of every reference vector that is itself within \<open>9e-4\<close> of that fixed point.
  The reference implementation is a library function outside the repository and enters
  the statement as such a vector.
\<close>

theorem example_ranking:
  "\<exists>out a b.
     manual_pagerank G (17/20) 100 (1/1000000) = (out, Inr [(''A'', a), (''B'', b), (''C'', b)]) \<and>
     b < a \<and> \<bar>a - 37/94\<bar> < 1/1000000 \<and> \<bar>b - 57/188\<bar> < 1/1000000 \<and>
     (\<forall>ra rb rc.
        \<bar>ra - 37/94\<bar> \<le> 9/10000 \<and> \<bar>rb - 57/188\<bar> \<le> 9/10000 \<and> \<bar>rc - 57/188\<bar> \<le> 9/10000 \<longrightarrow>
        \<bar>a - ra\<bar> < 1/1000 \<and> \<bar>b - rb\<bar> < 1/1000 \<and> \<bar>b - rc\<bar> < 1/1000) \<and>
     update 3 (17/20) [[0, 1/3, 1], [1/2, 1/3, 0], [1/2, 1/3, 0]] [37/94, 57/188, 57/188] =
       [37/94, 57/188, 57/188]"
proof -
  let ?a = "741126727625980832776089307253921 / 1882863576540000000000000000000000 :: real"
  let ?b = "1141736848914019167223910692746079 / 3765727153080000000000000000000000 :: real"
  have a: "\<bar>?a - 37/94\<bar> < 1/1000000" and b: "\<bar>?b - 57/188\<bar> < 1/1000000" and ba: "?b < ?a"
    by simp_all
  have close: "\<bar>?a - ra\<bar> < 1/1000 \<and> \<bar>?b - rb\<bar> < 1/1000 \<and> \<bar>?b - rc\<bar> < 1/1000"
    if "\<bar>ra - 37/94\<bar> \<le> 9/10000 \<and> \<bar>rb - 57/188\<bar> \<le> 9/10000 \<and> \<bar>rc - 57/188\<bar> \<le> 9/10000"
    for ra rb rc :: real
    using that a b by linarith
  have fp: "update 3 (17/20) [[0, 1/3, 1], [1/2, 1/3, 0], [1/2, 1/3, 0]] [37/94, 57/188, 57/188] =
       [37/94, 57/188, 57/188]"
    by (simp add: update_G)
  from G_default_run a b ba close fp show ?thesis by blast
qed

theorem example_ranking_witness:
  "\<exists>out a b.
     manual_pagerank G (17/20) 100 (1/1000000) = (out, Inr [(''A'', a), (''B'', b), (''C'', b)]) \<and>
     b < a \<and> \<bar>(37/94 :: real) - 37/94\<bar> \<le> 9/10000 \<and> \<bar>(57/188 :: real) - 57/188\<bar> \<le> 9/10000 \<and>
     \<bar>a - 37/94\<bar> < 1/1000 \<and> \<bar>b - 57/188\<bar> < 1/1000"
proof -
  from example_ranking obtain out a b where
    r: "manual_pagerank G (17/20) 100 (1/1000000) = (out, Inr [(''A'', a), (''B'', b), (''C'', b)])"
      "b < a"
      "\<forall>ra rb rc.
        \<bar>ra - 37/94\<bar> \<le> 9/10000 \<and> \<bar>rb - 57/188\<bar> \<le> 9/10000 \<and> \<bar>rc - 57/188\<bar> \<le> 9/10000 \<longrightarrow>
        \<bar>a - ra\<bar> < 1/1000 \<and> \<bar>b - rb\<bar> < 1/1000 \<and> \<bar>b - rc\<bar> < 1/1000"
    by blast
  have h: "\<bar>(37/94 :: real) - 37/94\<bar> \<le> 9/10000 \<and> \<bar>(57/188 :: real) - 57/188\<bar> \<le> 9/10000 \<and>
           \<bar>(57/188 :: real) - 57/188\<bar> \<le> 9/10000"
    by simp
  from r(3) [rule_format, OF h] have "\<bar>a - 37/94\<bar> < 1/1000 \<and> \<bar>b - 57/188\<bar> < 1/1000" by simp
  with r(1,2) h show ?thesis by blast
qed

subsection \<open>C6: the iteration bound is exhausted\<close>

text \<open>
  Claim C6. If in each of the \<open>iterations\<close> rounds the distance between the new vector
  and the current one is not below the tolerance, the call raises no error, prints
  nothing and returns the mapping built from the vector computed last, that is the
  update applied \<open>iterations\<close> times to the uniform vector.
\<close>

theorem exhausted_returns_last_vector:
  fixes g :: "'a::linorder digraph"
  assumes "wf_digraph g" and "g \<noteq> []" and "transition_matrix g = Inr M"
    and "\<forall>k < nat its.
           \<not> norm1 (vsub ((update (length (nodes g)) d M ^^ Suc k)
                             (replicate (length (nodes g)) (1 / real (length (nodes g)))))
                          ((update (length (nodes g)) d M ^^ k)
                             (replicate (length (nodes g)) (1 / real (length (nodes g)))))) < tol"
  shows "manual_pagerank g d its tol =
           ([], Inr (zip (sort (nodes g))
                      ((update (length (nodes g)) d M ^^ nat its)
                         (replicate (length (nodes g)) (1 / real (length (nodes g)))))))"
proof -
  let ?N = "length (nodes g)"
  let ?v0 = "replicate ?N (1 / real ?N)"
  have N: "0 < ?N" and lg: "length g = ?N" using assms(2) by (simp_all add: nodes_def)
  from transition_matrix_stochastic [OF assms(1)] assms(3) lg
  have st: "stochastic ?N M" by simp
  then have lm: "length M = ?N" by (simp add: stochastic_def dims_def)
  have run: "power_iteration ?N d M tol [0..<nat its] ?v0 =
               ([], Inr ((update ?N d M ^^ nat its) ?v0))"
    using power_iteration_exhausted [OF N, of "[0..<nat its]" d M ?v0 tol] assms(4) by simp
  have len: "length ((update ?N d M ^^ n) ?v0) = ?N" for n
    by (induction n) (simp_all add: length_update lm)
  have "manual_pagerank g d its tol =
          ([], Inr (map (\<lambda>i. (sort (nodes g) ! i, ((update ?N d M ^^ nat its) ?v0) ! i)) [0..<?N]))"
    using manual_pagerank_unfold [OF assms(1,3), of d its tol] run lg by simp
  also have "map (\<lambda>i. (sort (nodes g) ! i, ((update ?N d M ^^ nat its) ?v0) ! i)) [0..<?N]
               = zip (sort (nodes g)) ((update ?N d M ^^ nat its) ?v0)"
    by (rule items_zip) (simp_all add: len)
  finally show ?thesis .
qed

theorem exhausted_returns_last_vector_witness:
  "wf_digraph G \<and> G \<noteq> [] \<and>
   transition_matrix G = Inr [[0, 1/3, 1], [1/2, 1/3, 0], [1/2, 1/3, 0]] \<and>
   \<not> norm1 (vsub (update 3 (17/20) [[0, 1/3, 1], [1/2, 1/3, 0], [1/2, 1/3, 0]] [1/3, 1/3, 1/3])
                 [1/3, 1/3, 1/3]) < 1/10 \<and>
   manual_pagerank G (17/20) 1 (1/10) =
     ([], Inr [(''A'', 77/180), (''B'', 103/360), (''C'', 103/360)])"
proof -
  have ne: "G \<noteq> []" by (simp add: G_value)
  have r: "replicate 3 (1 / 3 :: real) = [1/3, 1/3, 1/3]" by (simp add: numeral_3_eq_3)
  have far: "\<not> norm1 (vsub (update 3 (17/20) [[0, 1/3, 1], [1/2, 1/3, 0], [1/2, 1/3, 0]]
                               [1/3, 1/3, 1/3]) [1/3, 1/3, 1/3]) < 1/10"
    by (simp add: update_G norm1_def vsub_def)
  have h: "\<forall>k < nat 1.
           \<not> norm1 (vsub ((update (length (nodes G)) (17/20)
                               [[0, 1/3, 1], [1/2, 1/3, 0], [1/2, 1/3, 0]] ^^ Suc k)
                             (replicate (length (nodes G)) (1 / real (length (nodes G)))))
                          ((update (length (nodes G)) (17/20)
                               [[0, 1/3, 1], [1/2, 1/3, 0], [1/2, 1/3, 0]] ^^ k)
                             (replicate (length (nodes G)) (1 / real (length (nodes G)))))) < 1/10"
    using far by (simp add: length_nodes_G r)
  from exhausted_returns_last_vector [OF wf_G ne transition_matrix_G h]
  have "manual_pagerank G (17/20) 1 (1/10) =
     ([], Inr [(''A'', 77/180), (''B'', 103/360), (''C'', 103/360)])"
    by (simp add: length_nodes_G r sort_nodes_G update_G)
  with wf_G ne transition_matrix_G far show ?thesis by simp
qed

subsection \<open>C7: determinism and the sorted node order\<close>

text \<open>
  Claim C7. The result is a function of the arguments, and it does not depend on the
  order in which nodes and edges were added: two graphs with the same nodes and the same
  out-neighbours of every node have the same sorted node list, the same transition matrix
  and the same result for the same damping factor, iteration bound and tolerance. The
  sorted node list fixes every position: entry \<open>(i, j)\<close> of the matrix is the weight
  from the \<open>j\<close>-th to the \<open>i\<close>-th node in sorted order, and for a non-empty graph
  the call returns the vector the loop computes from that matrix, entry \<open>i\<close> paired
  with the \<open>i\<close>-th node in sorted order. The keys of every returned mapping are the
  nodes in sorted order.
\<close>

theorem deterministic_in_sorted_order:
  fixes g1 g2 :: "'a::linorder digraph"
  assumes "wf_digraph g1" and "wf_digraph g2"
    and "set (nodes g1) = set (nodes g2)"
    and "\<forall>u. set (neighbors g1 u) = set (neighbors g2 u)"
  shows "manual_pagerank g1 d its tol = manual_pagerank g2 d its tol \<and>
         sort (nodes g2) = sort (nodes g1) \<and> sorted (sort (nodes g1)) \<and>
         (\<exists>M. transition_matrix g1 = Inr M \<and> transition_matrix g2 = Inr M \<and>
            length M = length (nodes g1) \<and>
            (\<forall>j < length (nodes g1). \<forall>i < length (nodes g1).
               M ! i ! j =
                 (if neighbors g1 (sort (nodes g1) ! j) = [] then 1 / real (length (nodes g1))
                  else if sort (nodes g1) ! i \<in> set (neighbors g1 (sort (nodes g1) ! j))
                       then 1 / real (length (neighbors g1 (sort (nodes g1) ! j)))
                       else 0)) \<and>
            (g1 \<noteq> [] \<longrightarrow>
               (\<exists>out v.
                  power_iteration (length (nodes g1)) d M tol [0..<nat its]
                    (replicate (length (nodes g1)) (1 / real (length (nodes g1)))) = (out, Inr v) \<and>
                  length v = length (nodes g1) \<and>
                  manual_pagerank g1 d its tol = (out, Inr (zip (sort (nodes g1)) v)) \<and>
                  manual_pagerank g2 d its tol = (out, Inr (zip (sort (nodes g1)) v))))) \<and>
         (\<forall>out ranks. manual_pagerank g1 d its tol = (out, Inr ranks) \<longrightarrow>
            map fst ranks = sort (nodes g1) \<and> sorted (map fst ranks))"
proof -
  let ?N = "length (nodes g1)"
  let ?ns = "sort (nodes g1)"
  let ?v0 = "replicate ?N (1 / real ?N)"
  have lg: "length g1 = ?N" and ls: "length ?ns = ?N" by (simp_all add: nodes_def)
  note cong = transition_matrix_cong [OF assms]
  have same: "manual_pagerank g1 d its tol = manual_pagerank g2 d its tol"
    using cong by (simp add: manual_pagerank_def)
  from transition_matrix_result [OF assms(1)] obtain M where
    M: "transition_matrix g1 = Inr M" "dims (length ?ns) M"
      "\<forall>i < length ?ns. \<forall>k < length ?ns.
              M ! i ! k =
                (if neighbors g1 (?ns ! k) = [] then 1 / real (length ?ns)
                 else if ?ns ! i \<in> set (neighbors g1 (?ns ! k))
                      then 1 / real (length (neighbors g1 (?ns ! k)))
                      else 0)"
    by blast
  have M2: "transition_matrix g2 = Inr M" using cong(2) M(1) by simp
  have lm: "length M = ?N" using M(2) by (simp add: dims_def)
  have entries: "\<forall>j < ?N. \<forall>i < ?N.
               M ! i ! j =
                 (if neighbors g1 (?ns ! j) = [] then 1 / real ?N
                  else if ?ns ! i \<in> set (neighbors g1 (?ns ! j))
                       then 1 / real (length (neighbors g1 (?ns ! j)))
                       else 0)"
    using M(3) unfolding ls by blast
  have run: "\<exists>out v.
                  power_iteration ?N d M tol [0..<nat its] ?v0 = (out, Inr v) \<and>
                  length v = ?N \<and>
                  manual_pagerank g1 d its tol = (out, Inr (zip ?ns v)) \<and>
                  manual_pagerank g2 d its tol = (out, Inr (zip ?ns v))"
    if ne: "g1 \<noteq> []"
  proof -
    have N: "0 < ?N" using ne by (simp add: nodes_def)
    from transition_matrix_stochastic [OF assms(1)] M(1) lg
    have st: "stochastic ?N M" by simp
    from power_iteration_mass [OF st N initial_vector(1,2) [OF N], of d tol "[0..<nat its]"]
    obtain out v where
      r: "power_iteration ?N d M tol [0..<nat its] ?v0 = (out, Inr v)" "length v = ?N"
      by blast
    have "manual_pagerank g1 d its tol =
            (out, Inr (map (\<lambda>i. (?ns ! i, v ! i)) [0..<?N]))"
      using manual_pagerank_unfold [OF assms(1) M(1), of d its tol] r(1) lg by simp
    also have "map (\<lambda>i. (?ns ! i, v ! i)) [0..<?N] = zip ?ns v"
      using ls r(2) by (rule items_zip)
    finally have "manual_pagerank g1 d its tol = (out, Inr (zip ?ns v))" .
    with r same show ?thesis by auto
  qed
  have keys: "\<forall>out ranks. manual_pagerank g1 d its tol = (out, Inr ranks) \<longrightarrow>
            map fst ranks = ?ns \<and> sorted (map fst ranks)"
    by (auto dest!: manual_pagerank_keys)
  have "\<exists>M. transition_matrix g1 = Inr M \<and> transition_matrix g2 = Inr M \<and>
            length M = ?N \<and>
            (\<forall>j < ?N. \<forall>i < ?N.
               M ! i ! j =
                 (if neighbors g1 (?ns ! j) = [] then 1 / real ?N
                  else if ?ns ! i \<in> set (neighbors g1 (?ns ! j))
                       then 1 / real (length (neighbors g1 (?ns ! j)))
                       else 0)) \<and>
            (g1 \<noteq> [] \<longrightarrow>
               (\<exists>out v.
                  power_iteration ?N d M tol [0..<nat its] ?v0 = (out, Inr v) \<and>
                  length v = ?N \<and>
                  manual_pagerank g1 d its tol = (out, Inr (zip ?ns v)) \<and>
                  manual_pagerank g2 d its tol = (out, Inr (zip ?ns v))))"
    using M(1) M2 lm entries run by (intro exI [of _ M]) blast
  with same cong(1) keys show ?thesis by simp
qed

theorem deterministic_in_sorted_order_witness:
  "wf_digraph G_reordered \<and> wf_digraph G \<and> G_reordered \<noteq> [] \<and> G_reordered \<noteq> G \<and>
   set (nodes G_reordered) = set (nodes G) \<and>
   (\<forall>u. set (neighbors G_reordered u) = set (neighbors G u)) \<and>
   nodes G_reordered = [''C'', ''B'', ''A''] \<and>
   sort (nodes G_reordered) = [''A'', ''B'', ''C''] \<and>
   transition_matrix G_reordered = Inr [[0, 1/3, 1], [1/2, 1/3, 0], [1/2, 1/3, 0]] \<and>
   manual_pagerank G_reordered (17/20) 100 (1/1000000) =
     ([''Converged at iteration 22''],
      Inr [(''A'', 741126727625980832776089307253921 / 1882863576540000000000000000000000),
           (''B'', 1141736848914019167223910692746079 / 3765727153080000000000000000000000),
           (''C'', 1141736848914019167223910692746079 / 3765727153080000000000000000000000)])"
proof -
  have n: "set (nodes G_reordered) = set (nodes G)"
    by (auto simp: G_value G_reordered_value nodes_def)
  have nb: "\<forall>u. set (neighbors G_reordered u) = set (neighbors G u)"
    by (auto simp: G_value G_reordered_value neighbors_def)
  have ne: "G_reordered \<noteq> []" "G_reordered \<noteq> G"
    by (simp_all add: G_value G_reordered_value)
  have ns: "nodes G_reordered = [''C'', ''B'', ''A'']"
    by (simp add: G_reordered_value nodes_def)
  from deterministic_in_sorted_order
         [OF wf_G_reordered wf_G n nb, of "17/20" 100 "1/1000000"]
  obtain M where
    r: "manual_pagerank G_reordered (17/20) 100 (1/1000000) =
          manual_pagerank G (17/20) 100 (1/1000000)"
      "sort (nodes G) = sort (nodes G_reordered)"
      "transition_matrix G_reordered = Inr M" "transition_matrix G = Inr M"
    by blast
  from r(3,4) transition_matrix_G
  have m: "transition_matrix G_reordered = Inr [[0, 1/3, 1], [1/2, 1/3, 0], [1/2, 1/3, 0]]"
    by simp
  from r(2) sort_nodes_G have s: "sort (nodes G_reordered) = [''A'', ''B'', ''C'']"
    by simp
  from r(1) G_default_run
  have p: "manual_pagerank G_reordered (17/20) 100 (1/1000000) =
     ([''Converged at iteration 22''],
      Inr [(''A'', 741126727625980832776089307253921 / 1882863576540000000000000000000000),
           (''B'', 1141736848914019167223910692746079 / 3765727153080000000000000000000000),
           (''C'', 1141736848914019167223910692746079 / 3765727153080000000000000000000000)])"
    by simp
  from wf_G_reordered wf_G ne n nb ns s m p show ?thesis by blast
qed

subsection \<open>C8: keys and non-negative ranks\<close>

text \<open>
  Claim C8. For every non-empty graph the call returns a mapping whose keys are exactly
  the nodes of the graph, each once, and for a damping factor between 0 and 1 every rank
  in it is non-negative.
\<close>

theorem keys_and_nonnegative:
  fixes g :: "'a::linorder digraph"
  assumes "wf_digraph g" and "g \<noteq> []"
  shows "\<exists>out ranks. manual_pagerank g d its tol = (out, Inr ranks) \<and>
           distinct (map fst ranks) \<and> set (map fst ranks) = set (nodes g) \<and>
           (0 \<le> d \<and> d \<le> 1 \<longrightarrow> (\<forall>(n, x) \<in> set ranks. 0 \<le> x))"
proof -
  from manual_pagerank_returns [OF assms(1,2), of d its tol] obtain out v where
    r: "manual_pagerank g d its tol = (out, Inr (zip (sort (nodes g)) v))"
      "length v = length g" "0 \<le> d \<and> d \<le> 1 \<longrightarrow> (\<forall>x \<in> set v. 0 \<le> x)"
    by blast
  have keys: "map fst (zip (sort (nodes g)) v) = sort (nodes g)"
    using r(2) wf_sorted_nodes(3) [OF assms(1)] by (simp add: map_fst_zip)
  have "\<forall>(n, x) \<in> set (zip (sort (nodes g)) v). 0 \<le> x" if "0 \<le> d \<and> d \<le> 1"
    using r(3) that by (auto dest: set_zip_rightD)
  with r(1) keys wf_sorted_nodes(1,2) [OF assms(1)] show ?thesis
    by (intro exI [of _ out] exI [of _ "zip (sort (nodes g)) v"]) simp
qed

theorem keys_and_nonnegative_witness:
  "wf_digraph G \<and> G \<noteq> [] \<and> (0 :: real) \<le> 17/20 \<and> (17/20 :: real) \<le> 1 \<and>
   (\<exists>out ranks. manual_pagerank G (17/20) 100 (1/1000000) = (out, Inr ranks) \<and>
      distinct (map fst ranks) \<and> set (map fst ranks) = {''A'', ''B'', ''C''} \<and>
      (\<forall>(n, x) \<in> set ranks. 0 \<le> x))"
proof -
  have ne: "G \<noteq> []" by (simp add: G_value)
  from keys_and_nonnegative [OF wf_G ne, of "17/20" 100 "1/1000000"] wf_G ne
  show ?thesis by (simp add: nodes_G insert_commute)
qed

subsection \<open>C9: side effects\<close>



subsection \<open>C10: one update preserves the total mass\<close>

text \<open>
  Claim C10. In exact arithmetic, for every non-empty graph with or without dangling
  nodes and every damping factor between 0 and 1, the update of a vector of length \<open>N\<close>
  whose entries sum to 1 is a vector whose entries sum to exactly 1; hence every iterate
  computed from the uniform vector sums to 1.
\<close>

theorem update_preserves_mass:
  fixes g :: "'a::linorder digraph"
  assumes "wf_digraph g" and "g \<noteq> []" and "transition_matrix g = Inr M"
    and "length v = length (nodes g)" and "sum_list v = 1" and "0 < d" and "d < 1"
  shows "sum_list (update (length (nodes g)) d M v) = 1 \<and>
         (\<forall>k. sum_list ((update (length (nodes g)) d M ^^ k)
                 (replicate (length (nodes g)) (1 / real (length (nodes g))))) = 1)"
proof -
  let ?N = "length (nodes g)"
  have N: "0 < ?N" and lg: "length g = ?N" using assms(2) by (simp_all add: nodes_def)
  from transition_matrix_stochastic [OF assms(1)] assms(3) lg
  have st: "stochastic ?N M" by simp
  have one: "sum_list (update ?N d M v) = 1"
    using update_mass(2) [OF st N assms(4,5)] .
  have "length ((update ?N d M ^^ k) (replicate ?N (1 / real ?N))) = ?N \<and>
        sum_list ((update ?N d M ^^ k) (replicate ?N (1 / real ?N))) = 1" for k
  proof (induction k)
    case 0
    from initial_vector(1,2) [OF N] show ?case by simp
  next
    case (Suc k)
    with update_mass [OF st N] show ?case by simp
  qed
  with one show ?thesis by simp
qed

theorem update_preserves_mass_witness:
  "wf_digraph G \<and> G \<noteq> [] \<and>
   transition_matrix G = Inr [[0, 1/3, 1], [1/2, 1/3, 0], [1/2, 1/3, 0]] \<and>
   length [1/2, 1/4, 1/4 :: real] = length (nodes G) \<and> sum_list [1/2, 1/4, 1/4 :: real] = 1 \<and>
   (0 :: real) < 17/20 \<and> (17/20 :: real) < 1 \<and>
   sum_list (update (length (nodes G)) (17/20) [[0, 1/3, 1], [1/2, 1/3, 0], [1/2, 1/3, 0]]
               [1/2, 1/4, 1/4]) = 1"
proof -
  have ne: "G \<noteq> []" by (simp add: G_value)
  have l: "length [1/2, 1/4, 1/4 :: real] = length (nodes G)" by (simp add: nodes_G)
  have s: "sum_list [1/2, 1/4, 1/4 :: real] = 1" by simp
  have d: "(0 :: real) < 17/20" "(17/20 :: real) < 1" by simp_all
  from update_preserves_mass [OF wf_G ne transition_matrix_G l s d]
    wf_G ne transition_matrix_G l s d
  show ?thesis by simp
qed

end
